theory Spec2Isabelle
  imports Main
begin

section \<open>Telemetry ingestion of the orbit simulator (sdl\_orbitsim.cpp)\<close>

text \<open>
  The development embeds the socket client of the simulator: \<open>createSocket\<close>,
  \<open>getSatelliteData\<close> and the part of the frame loop of \<open>main\<close> that consumes the
  telemetry vector. The operating system is an explicit world: a script of the results that
  successive system calls report, and a trace of the calls the program made.
\<close>

subsection \<open>C library: character classes, \<open>atoi\<close>, \<open>strtok\<close>\<close>

definition NUL :: char where
  "NUL = CHR 0x00"

definition comma :: char where
  "comma = CHR '',''"

definition isspace :: "char \<Rightarrow> bool" where
  \<comment> \<open>C locale: space, and \<open>\t \n \v \f \r\<close> (codes 9 to 13)\<close>
  "isspace c \<longleftrightarrow> c = CHR '' '' \<or> (9 \<le> (of_char c :: nat) \<and> (of_char c :: nat) \<le> 13)"

definition isdigit :: "char \<Rightarrow> bool" where
  "isdigit c \<longleftrightarrow> 48 \<le> (of_char c :: nat) \<and> (of_char c :: nat) \<le> 57"

definition digit_value :: "char \<Rightarrow> int" where
  "digit_value c = int (of_char c) - 48"

text \<open>
  The digit loop of \<open>atoi\<close>: the value of the longest prefix of decimal digits, accumulated
  from the left. The accumulator is a mathematical integer; the C result is the same number
  as long as it fits an \<open>int\<close> (beyond that C leaves \<open>atoi\<close> undefined).
\<close>

fun atoi_digits :: "int \<Rightarrow> string \<Rightarrow> int" where
  "atoi_digits acc [] = acc"
| "atoi_digits acc (c # cs) =
     (if isdigit c then atoi_digits (acc * 10 + digit_value c) cs else acc)"

definition atoi :: "string \<Rightarrow> int" where
  \<comment> \<open>skip white space, take one optional sign, convert the digits; no digits give 0\<close>
  "atoi s =
     (case dropWhile isspace s of
        [] \<Rightarrow> 0
      | c # cs \<Rightarrow>
          if c = CHR ''-'' then - atoi_digits 0 cs
          else if c = CHR ''+'' then atoi_digits 0 cs
          else atoi_digits 0 (c # cs))"

definition INT_MAX :: int where
  "INT_MAX = 2147483647"

definition INT_MIN :: int where
  "INT_MIN = - 2147483648"

definition c_str :: "string \<Rightarrow> string" where
  \<comment> \<open>the C string that starts a byte sequence: everything before the first NUL\<close>
  "c_str bs = takeWhile (\<lambda>c. c \<noteq> NUL) bs"

text \<open>
  \<open>strtok\<close> with the single delimiter \<open>,\<close>, on the part of the string not yet scanned
  (the position \<open>strtok\<close> keeps between calls): leading delimiters are skipped; at the end of
  the string the result is \<open>NULL\<close> (\<open>None\<close>); otherwise the token runs up to the next
  delimiter, and scanning resumes after that delimiter.
\<close>

definition strtok :: "string \<Rightarrow> (string \<times> string) option" where
  "strtok s =
     (case dropWhile (\<lambda>c. c = comma) s of
        [] \<Rightarrow> None
      | c # cs \<Rightarrow>
          Some (takeWhile (\<lambda>c. c \<noteq> comma) (c # cs),
                drop 1 (dropWhile (\<lambda>c. c \<noteq> comma) (c # cs))))"

lemma strtok_shorter: "strtok s = Some (t, r) \<Longrightarrow> length r < length s"
proof -
  assume a: "strtok s = Some (t, r)"
  then obtain c cs where s1: "dropWhile (\<lambda>c. c = comma) s = c # cs"
    and r: "r = drop 1 (dropWhile (\<lambda>c. c \<noteq> comma) (c # cs))"
    unfolding strtok_def by (cases "dropWhile (\<lambda>c. c = comma) s") simp_all
  have "length (c # cs) \<le> length s"
    using length_dropWhile_le [of "\<lambda>c. c = comma" s] by (simp only: s1)
  moreover have "length (dropWhile (\<lambda>c. c \<noteq> comma) (c # cs)) \<le> length (c # cs)"
    by (rule length_dropWhile_le)
  moreover have "length r = length (dropWhile (\<lambda>c. c \<noteq> comma) (c # cs)) - 1"
    by (simp only: r length_drop)
  ultimately show ?thesis by simp
qed

subsection \<open>The parsing loop of \<open>getSatelliteData\<close>\<close>

text \<open>
  Lines 204 to 210: \<open>token = strtok(buf, ",")\<close>, then while a token exists
  \<open>sat_params.push_back(atoi(token))\<close> and \<open>token = strtok(NULL, ",")\<close>. The first
  argument is the text still to scan, the second the vector built so far.
\<close>

function token_loop :: "string \<Rightarrow> int list \<Rightarrow> int list" where
  "token_loop s sat_params =
     (case strtok s of
        None \<Rightarrow> sat_params
      | Some (token, rest) \<Rightarrow> token_loop rest (sat_params @ [atoi token]))"
  by pat_completeness auto
termination
  by (relation "measure (\<lambda>(s, sat_params). length s)") (auto dest: strtok_shorter)

declare token_loop.simps [simp del]

definition parse_params :: "string \<Rightarrow> int list" where
  \<comment> \<open>the buffer is terminated at the received length, so the text parsed is \<open>c_str\<close> of the bytes\<close>
  "parse_params bytes = token_loop (c_str bytes) []"

subsection \<open>The operating system as a world\<close>

datatype errno = ENOENT | ECONNREFUSED | EWOULDBLOCK | EINTR | ECONNRESET | EACCES | ENOMEM

text \<open>
  What one \<open>poll(fds, 1, timeout)\<close> reports: \<open>-1\<close> with an error, \<open>0\<close> for a timeout, or a
  positive count, with the flag telling whether \<open>revents\<close> has \<open>POLLIN\<close> set.
\<close>

datatype poll_ret = PollFailed errno | PollTimedOut | PollEvents bool

text \<open>
  What the socket holds when \<open>recv\<close> is called: an error to report, or the bytes queued
  for delivery. An empty queue stands for the orderly shutdown of the peer, where \<open>recv\<close>
  returns 0 (a socket that is merely empty reports \<open>EWOULDBLOCK\<close>, the descriptor being
  non-blocking).
\<close>

datatype recv_src = RecvFailed errno | RecvQueued string

datatype syscall = SysPoll nat | SysRecv nat

record world =
  polls :: "poll_ret list"
  recvs :: "recv_src list"
  trace :: "syscall list"

definition sys_poll :: "nat \<Rightarrow> world \<Rightarrow> (poll_ret \<times> world) option" where
  \<comment> \<open>\<open>None\<close>: the script says nothing about this call\<close>
  "sys_poll timeout_ms w =
     (case polls w of
        [] \<Rightarrow> None
      | r # rs \<Rightarrow> Some (r, w\<lparr>polls := rs, trace := trace w @ [SysPoll timeout_ms]\<rparr>))"

definition sys_recv :: "nat \<Rightarrow> world \<Rightarrow> ((errno + string) \<times> world) option" where
  \<comment> \<open>at most \<open>len\<close> bytes are delivered; what does not fit stays queued for the next call\<close>
  "sys_recv len w =
     (case recvs w of
        [] \<Rightarrow> None
      | RecvFailed e # rs \<Rightarrow>
          Some (Inl e, w\<lparr>recvs := rs, trace := trace w @ [SysRecv len]\<rparr>)
      | RecvQueued q # rs \<Rightarrow>
          Some (Inr (take len q),
                w\<lparr>recvs := (if drop len q = [] then rs else RecvQueued (drop len q) # rs),
                  trace := trace w @ [SysRecv len]\<rparr>))"

lemma sys_poll_shorter:
  "sys_poll t w = Some (r, w1) \<Longrightarrow> length (polls w1) < length (polls w)"
  by (auto simp: sys_poll_def split: list.splits)

lemma sys_recv_polls: "sys_recv n w = Some (x, w1) \<Longrightarrow> polls w1 = polls w"
  by (auto simp: sys_recv_def split: list.splits recv_src.splits)

subsection \<open>\<open>getSatelliteData\<close>\<close>

definition sizeof_char_ptr :: nat where
  \<comment> \<open>\<open>buf\<close> is a parameter of type \<open>char*\<close>, so \<open>sizeof(buf)\<close> is the size of a pointer: 8 on
      the 64-bit targets the program is built for\<close>
  "sizeof_char_ptr = 8"

text \<open>
  The \<open>while (true)\<close> loop, lines 158 to 217. Every iteration calls \<open>poll\<close> with a timeout of
  10 ms. A \<open>break\<close> leaves the loop for \<open>return sat_params\<close> at line 220; \<open>continue\<close> and the
  \<open>else\<close> branch of the \<open>POLLIN\<close> test start the next iteration. The result is \<open>None\<close> when
  the script ends before the call returns.
\<close>

function getSatelliteData_loop ::
    "world \<Rightarrow> int list \<Rightarrow> int list \<Rightarrow> (int list \<times> world) option" where
  "getSatelliteData_loop w default_params sat_params =
     (case sys_poll 10 w of
        None \<Rightarrow> None
      | Some (ret, w1) \<Rightarrow>
          (case ret of
             PollFailed e \<Rightarrow> Some (sat_params, w1)
           | PollTimedOut \<Rightarrow> Some (default_params, w1)
           | PollEvents pollin \<Rightarrow>
               if pollin then
                 (case sys_recv (sizeof_char_ptr - 1) w1 of
                    None \<Rightarrow> None
                  | Some (Inl e, w2) \<Rightarrow>
                      if e = EWOULDBLOCK
                      then getSatelliteData_loop w2 default_params sat_params
                      else Some (sat_params, w2)
                  | Some (Inr bytes, w2) \<Rightarrow>
                      if length bytes = 0 then Some (sat_params, w2)
                      else Some (token_loop (c_str bytes) sat_params, w2))
               else getSatelliteData_loop w1 default_params sat_params))"
  by pat_completeness auto
termination
  by (relation "measure (\<lambda>(w, default_params, sat_params). length (polls w))")
     (auto dest!: sys_poll_shorter sys_recv_polls)

declare getSatelliteData_loop.simps [simp del]

definition getSatelliteData :: "world \<Rightarrow> int list \<Rightarrow> (int list \<times> world) option" where
  \<comment> \<open>line 151: \<open>sat_params\<close> starts empty\<close>
  "getSatelliteData w default_params = getSatelliteData_loop w default_params []"

subsection \<open>The frame loop of \<open>main\<close>\<close>

datatype fault = OutOfBounds nat | SignedOverflow

definition refill :: "int list \<Rightarrow> int list" where
  \<comment> \<open>lines 271 to 274\<close>
  "refill ps = (if ps = [] then [2, 10] else ps)"

record frame_state =
  angle :: int
  sat_params :: "int list"

text \<open>
  Lines 271 to 280 of one iteration of the frame loop (drawing left out): the vector is
  refilled when empty, handed to \<open>getSatelliteData\<close> as the default, replaced by the result,
  and read at index 1 (line 278) and then at index 0 (line 280). \<open>operator[]\<close> outside the
  vector is a fault, and so is \<open>angle += sat_params[0]\<close> when the sum leaves the range of
  \<open>int\<close>.
\<close>

definition main_frame :: "world \<Rightarrow> frame_state \<Rightarrow> (fault + frame_state \<times> world) option" where
  "main_frame w st =
     (case getSatelliteData w (refill (sat_params st)) of
        None \<Rightarrow> None
      | Some (ps, w1) \<Rightarrow>
          Some (if length ps \<le> 1 then Inl (OutOfBounds 1)
                else if INT_MIN \<le> angle st + ps ! 0 \<and> angle st + ps ! 0 \<le> INT_MAX
                then Inr (\<lparr>angle = angle st + ps ! 0, sat_params = ps\<rparr>, w1)
                else Inl SignedOverflow))"

fun main_frames :: "nat \<Rightarrow> world \<Rightarrow> frame_state \<Rightarrow> (fault + frame_state \<times> world) option" where
  "main_frames 0 w st = Some (Inr (st, w))"
| "main_frames (Suc n) w st =
     (case main_frame w st of
        None \<Rightarrow> None
      | Some (Inl f) \<Rightarrow> Some (Inl f)
      | Some (Inr (st1, w1)) \<Rightarrow> main_frames n w1 st1)"

subsection \<open>\<open>createSocket\<close>\<close>

datatype connect_ret = ConnectOk | ConnectFailed errno

datatype sock_call = CallConnect | CallDelay nat | CallClose

text \<open>
  The \<open>while (!connected)\<close> loop, lines 94 to 119, over the results of the successive
  \<open>connect\<close> calls; the last argument collects the calls made. The result is the value
  \<open>createSocket\<close> returns: the descriptor after a successful \<open>connect\<close>, 0 when the
  patience counter \<open>fallback\<close> has passed 2, 1 after any other error.
\<close>

fun connect_loop ::
    "int \<Rightarrow> int \<Rightarrow> connect_ret list \<Rightarrow> sock_call list \<Rightarrow> (int \<times> sock_call list) option" where
  "connect_loop client_socket fallback [] calls = None"
| "connect_loop client_socket fallback (ConnectOk # rs) calls =
     Some (client_socket, calls @ [CallConnect])"
| "connect_loop client_socket fallback (ConnectFailed e # rs) calls =
     (if e = ENOENT \<or> e = ECONNREFUSED then
        if fallback > 2 then Some (0, calls @ [CallConnect])
        else connect_loop client_socket (fallback + 1) rs
               (calls @ [CallConnect, CallDelay 1000])
      else Some (1, calls @ [CallConnect, CallClose]))"

definition createSocket ::
    "int \<Rightarrow> int \<Rightarrow> connect_ret list \<Rightarrow> (int \<times> sock_call list) option" where
  \<comment> \<open>\<open>socket_ret\<close> and \<open>fcntl_ret\<close> are what \<open>socket\<close> and \<open>fcntl(F_SETFL)\<close> return\<close>
  "createSocket socket_ret fcntl_ret connects =
     (if socket_ret = - 1 then Some (1, [])
      else if fcntl_ret = - 1 then Some (1, [])
      else connect_loop socket_ret 0 connects [])"

subsection \<open>The wire format\<close>

text \<open>
  The producer's side of the format, as the specification words it: decimal integers
  separated by commas.
\<close>

definition digit_char :: "nat \<Rightarrow> char" where
  "digit_char d = char_of (48 + d)"

function dec_digits :: "nat \<Rightarrow> string" where
  "dec_digits n =
     (if n < 10 then [digit_char n] else dec_digits (n div 10) @ [digit_char (n mod 10)])"
  by pat_completeness auto
termination
  by (relation "measure id") auto

declare dec_digits.simps [simp del]

definition wire_int :: "int \<Rightarrow> string" where
  "wire_int i = (if i < 0 then CHR ''-'' # dec_digits (nat (- i)) else dec_digits (nat i))"

fun wire_join :: "string list \<Rightarrow> string" where
  "wire_join [] = []"
| "wire_join [t] = t"
| "wire_join (t # u # ts) = t @ comma # wire_join (u # ts)"

definition wire_message :: "int list \<Rightarrow> string" where
  "wire_message xs = wire_join (map wire_int xs)"

text \<open>
  The split of a text on commas, as the specification words it: the fields between the
  commas, of which the tokens are those that are not empty. A token converts when, after
  white space and one optional sign, it starts with a digit.
\<close>

fun comma_fields :: "string \<Rightarrow> string list" where
  "comma_fields [] = [[]]"
| "comma_fields (c # cs) =
     (if c = comma then [] # comma_fields cs
      else (c # hd (comma_fields cs)) # tl (comma_fields cs))"

definition comma_tokens :: "string \<Rightarrow> string list" where
  "comma_tokens s = filter (\<lambda>t. t \<noteq> []) (comma_fields s)"

definition converts :: "string \<Rightarrow> bool" where
  "converts t =
     (case dropWhile isspace t of
        [] \<Rightarrow> False
      | c # cs \<Rightarrow>
          if c = CHR ''-'' \<or> c = CHR ''+'' then (case cs of [] \<Rightarrow> False | d # ds \<Rightarrow> isdigit d)
          else isdigit c)"

section \<open>Parsing\<close>

subsection \<open>Tokens and the decimal format\<close>

lemma strtok_none_iff: "strtok s = None \<longleftrightarrow> set s \<subseteq> {comma}"
proof -
  have "strtok s = None \<longleftrightarrow> dropWhile (\<lambda>c. c = comma) s = []"
    unfolding strtok_def
    by (cases "dropWhile (\<lambda>c. c = comma) s") (simp_all del: dropWhile_eq_Nil_conv)
  then show ?thesis by auto
qed

lemma strtok_token_more:
  assumes "t \<noteq> []" and "comma \<notin> set t"
  shows "strtok (t @ comma # rest) = Some (t, rest)"
proof -
  from assms obtain c cs where t: "t = c # cs" and c: "c \<noteq> comma"
    by (cases t) auto
  have d: "dropWhile (\<lambda>c. c = comma) (t @ comma # rest) = c # (cs @ comma # rest)"
    using t c by simp
  have tk: "takeWhile (\<lambda>c. c \<noteq> comma) (t @ comma # rest) = t"
    using assms(2) by (simp add: takeWhile_append)
  have dr: "dropWhile (\<lambda>c. c \<noteq> comma) (t @ comma # rest) = comma # rest"
    using assms(2) by (simp add: dropWhile_append)
  show ?thesis
    unfolding strtok_def d list.case using tk dr by (simp only: t append_Cons drop_Suc_Cons drop_0 One_nat_def)
qed

lemma strtok_token_last:
  assumes "t \<noteq> []" and "comma \<notin> set t"
  shows "strtok t = Some (t, [])"
proof -
  from assms obtain c cs where t: "t = c # cs" and c: "c \<noteq> comma"
    by (cases t) auto
  have d: "dropWhile (\<lambda>c. c = comma) t = c # cs"
    using t c by simp
  have tk: "takeWhile (\<lambda>c. c \<noteq> comma) t = t"
    using assms(2) by auto
  have dr: "dropWhile (\<lambda>c. c \<noteq> comma) t = []"
    using assms(2) by auto
  show ?thesis
    unfolding strtok_def d list.case using tk dr by (simp only: t drop_Nil)
qed

lemma token_loop_join:
  "\<forall>t \<in> set ts. t \<noteq> [] \<and> comma \<notin> set t \<Longrightarrow>
   token_loop (wire_join ts) sp = sp @ map atoi ts"
proof (induction ts arbitrary: sp rule: wire_join.induct)
  case 1
  show ?case by (simp add: token_loop.simps strtok_def)
next
  case (2 t)
  then have "strtok t = Some (t, [])" by (simp add: strtok_token_last)
  then show ?case by (simp add: token_loop.simps [of t] token_loop.simps [of "[]"] strtok_def)
next
  case (3 t u ts)
  then have "strtok (t @ comma # wire_join (u # ts)) = Some (t, wire_join (u # ts))"
    by (simp add: strtok_token_more)
  moreover have "token_loop (wire_join (u # ts)) (sp @ [atoi t]) = (sp @ [atoi t]) @ map atoi (u # ts)"
    using 3 by simp
  ultimately show ?case
    by (simp add: token_loop.simps [of "t @ comma # wire_join (u # ts)"])
qed

lemma c_str_id: "NUL \<notin> set s \<Longrightarrow> c_str s = s"
  by (auto simp: c_str_def)

lemma wire_join_set: "set (wire_join ts) \<subseteq> (\<Union>t \<in> set ts. set t) \<union> {comma}"
  by (induction ts rule: wire_join.induct) auto

lemma token_loop_length: "length sp \<le> length (token_loop s sp)"
proof (induction s sp rule: token_loop.induct)
  case (1 s sp)
  show ?case
  proof (cases "strtok s")
    case None
    then show ?thesis by (simp add: token_loop.simps [of s])
  next
    case (Some a)
    then obtain t r where tr: "strtok s = Some (t, r)" by (cases a) auto
    with 1 [of "(t, r)" t r] have "length (sp @ [atoi t]) \<le> length (token_loop r (sp @ [atoi t]))"
      by simp
    with tr show ?thesis by (simp add: token_loop.simps [of s])
  qed
qed

lemma token_loop_empty_iff: "token_loop s [] = [] \<longleftrightarrow> set s \<subseteq> {comma}"
proof (cases "strtok s")
  case None
  then show ?thesis using strtok_none_iff [of s] by (simp add: token_loop.simps [of s])
next
  case (Some a)
  then obtain t r where tr: "strtok s = Some (t, r)" by (cases a) auto
  have "length [atoi t] \<le> length (token_loop r [atoi t])" by (rule token_loop_length)
  then have "token_loop r [atoi t] \<noteq> []" by auto
  with tr show ?thesis using strtok_none_iff [of s] by (simp add: token_loop.simps [of s])
qed

lemma parse_params_empty_iff: "parse_params bytes = [] \<longleftrightarrow> set (c_str bytes) \<subseteq> {comma}"
  by (simp only: parse_params_def token_loop_empty_iff)


lemma comma_fields_token_sep:
  "comma \<notin> set t \<Longrightarrow> comma_fields (t @ comma # r) = t # comma_fields r"
  by (induction t) auto

lemma comma_fields_token_end: "comma \<notin> set t \<Longrightarrow> comma_fields t = [t]"
  by (induction t) auto

lemma comma_tokens_skip_commas:
  "\<forall>c \<in> set cs. c = comma \<Longrightarrow> comma_tokens (cs @ s) = comma_tokens s"
  by (induction cs) (simp_all add: comma_tokens_def)

lemma comma_tokens_only_commas: "set s \<subseteq> {comma} \<Longrightarrow> comma_tokens s = []"
  by (induction s) (simp_all add: comma_tokens_def)

lemma strtok_split:
  assumes "strtok s = Some (t, r)"
  shows "t \<noteq> [] \<and> comma \<notin> set t \<and>
         (\<exists>cs. (\<forall>c \<in> set cs. c = comma) \<and> (s = cs @ t \<and> r = [] \<or> s = cs @ t @ comma # r))"
proof -
  define pre where "pre = takeWhile (\<lambda>c. c = comma) s"
  define s1 where "s1 = dropWhile (\<lambda>c. c = comma) s"
  define d where "d = dropWhile (\<lambda>c. c \<noteq> comma) s1"
  from assms obtain c cs' where c: "s1 = c # cs'"
    and t: "t = takeWhile (\<lambda>c. c \<noteq> comma) s1" and r: "r = drop 1 d"
    unfolding strtok_def s1_def d_def
    by (cases "dropWhile (\<lambda>c. c = comma) s") (simp_all del: dropWhile_eq_Nil_conv)
  have "c \<noteq> comma" using c unfolding s1_def by (simp add: dropWhile_eq_Cons_conv)
  then have tne: "t \<noteq> []" unfolding t c by simp
  have tfree: "comma \<notin> set t" unfolding t by (auto dest: set_takeWhileD)
  have pre: "\<forall>c \<in> set pre. c = comma" unfolding pre_def by (auto dest: set_takeWhileD)
  have s: "s = pre @ s1" unfolding pre_def s1_def by simp
  have s1: "s1 = t @ d" unfolding t d_def by simp
  show ?thesis
  proof (cases d)
    case Nil
    then have "s = pre @ t \<and> r = []" using s s1 r by simp
    then show ?thesis using tne tfree pre by blast
  next
    case (Cons x xs)
    then have "x = comma" unfolding d_def by (simp add: dropWhile_eq_Cons_conv)
    then have "d = comma # r" using Cons r by simp
    then have "s = pre @ t @ comma # r" using s s1 by simp
    then show ?thesis using tne tfree pre by blast
  qed
qed

lemma strtok_tokens:
  assumes "strtok s = Some (t, r)"
  shows "comma_tokens s = t # comma_tokens r"
proof -
  from strtok_split [OF assms] obtain cs where tne: "t \<noteq> []" and tfree: "comma \<notin> set t"
    and cs: "\<forall>c \<in> set cs. c = comma"
    and alt: "s = cs @ t \<and> r = [] \<or> s = cs @ t @ comma # r" by blast
  from alt show ?thesis
  proof
    assume "s = cs @ t \<and> r = []"
    then show ?thesis using cs tne tfree
      by (simp add: comma_tokens_skip_commas) (simp add: comma_tokens_def comma_fields_token_end)
  next
    assume "s = cs @ t @ comma # r"
    then show ?thesis using cs tne tfree
      by (simp add: comma_tokens_skip_commas) (simp add: comma_tokens_def comma_fields_token_sep)
  qed
qed

lemma token_loop_tokens: "token_loop s sp = sp @ map atoi (comma_tokens s)"
proof (induction s sp rule: token_loop.induct)
  case (1 s sp)
  show ?case
  proof (cases "strtok s")
    case None
    then have "comma_tokens s = []" using strtok_none_iff comma_tokens_only_commas by blast
    with None show ?thesis by (simp add: token_loop.simps [of s])
  next
    case (Some a)
    then obtain t r where tr: "strtok s = Some (t, r)" by (cases a) auto
    have "token_loop r (sp @ [atoi t]) = (sp @ [atoi t]) @ map atoi (comma_tokens r)"
      by (rule 1 [OF tr refl])
    with tr strtok_tokens [OF tr] show ?thesis by (simp add: token_loop.simps [of s])
  qed
qed

lemma parse_params_tokens: "parse_params bytes = map atoi (comma_tokens (c_str bytes))"
  by (simp add: parse_params_def token_loop_tokens)

lemma atoi_digits_no_digit:
  "\<not> (case cs of [] \<Rightarrow> False | d # ds \<Rightarrow> isdigit d) \<Longrightarrow> atoi_digits acc cs = acc"
  by (cases cs) simp_all

lemma not_converts_atoi:
  assumes "\<not> converts t"
  shows "atoi t = 0"
proof (cases "dropWhile isspace t")
  case Nil
  show ?thesis unfolding atoi_def by (simp only: Nil list.case)
next
  case (Cons c cs)
  have nc: "\<not> (if c = CHR ''-'' \<or> c = CHR ''+''
                then (case cs of [] \<Rightarrow> False | d # ds \<Rightarrow> isdigit d) else isdigit c)"
    using assms unfolding converts_def Cons by simp
  have at: "atoi t = (if c = CHR ''-'' then - atoi_digits 0 cs
                      else if c = CHR ''+'' then atoi_digits 0 cs else atoi_digits 0 (c # cs))"
    unfolding atoi_def by (simp only: Cons list.case)
  show ?thesis
  proof (cases "c = CHR ''-'' \<or> c = CHR ''+''")
    case True
    then have "atoi_digits 0 cs = 0" using nc by (simp add: atoi_digits_no_digit)
    then show ?thesis using at True by auto
  next
    case False
    then have "\<not> isdigit c" using nc by simp
    then show ?thesis using at False by simp
  qed
qed

lemma isdigit_digit_char: "d < 10 \<Longrightarrow> isdigit (digit_char d)"
  by (simp add: isdigit_def digit_char_def)

lemma digit_value_digit_char: "d < 10 \<Longrightarrow> digit_value (digit_char d) = int d"
  by (simp add: digit_value_def digit_char_def)

lemma isdigit_plain:
  "isdigit c \<Longrightarrow> \<not> isspace c \<and> c \<noteq> CHR ''-'' \<and> c \<noteq> CHR ''+'' \<and> c \<noteq> comma \<and> c \<noteq> NUL"
  by (auto simp: isdigit_def isspace_def comma_def NUL_def)

lemma dec_digits_isdigit: "\<forall>c \<in> set (dec_digits n). isdigit c"
proof (induction n rule: dec_digits.induct)
  case (1 n)
  show ?case
  proof (cases "n < 10")
    case True
    then show ?thesis by (simp add: dec_digits.simps [of n] isdigit_digit_char)
  next
    case False
    with 1 show ?thesis by (simp add: dec_digits.simps [of n] isdigit_digit_char)
  qed
qed

lemma dec_digits_nonempty: "dec_digits n \<noteq> []"
  by (simp add: dec_digits.simps [of n])

lemma atoi_digits_append:
  "\<forall>c \<in> set ds. isdigit c \<Longrightarrow>
   atoi_digits acc (ds @ rest) = atoi_digits (atoi_digits acc ds) rest"
  by (induction ds arbitrary: acc) simp_all

lemma atoi_digits_dec: "atoi_digits 0 (dec_digits n) = int n"
proof (induction n rule: dec_digits.induct)
  case (1 n)
  show ?case
  proof (cases "n < 10")
    case True
    then show ?thesis
      by (simp add: dec_digits.simps [of n] isdigit_digit_char digit_value_digit_char)
  next
    case False
    then have "atoi_digits 0 (dec_digits (n div 10)) = int (n div 10)" using 1 by simp
    moreover have "n mod 10 < 10" by simp
    ultimately have "atoi_digits 0 (dec_digits n) = int (n div 10) * 10 + int (n mod 10)"
      using False dec_digits_isdigit [of "n div 10"]
      by (simp add: dec_digits.simps [of n] atoi_digits_append isdigit_digit_char
          digit_value_digit_char)
    also have "\<dots> = int n" by presburger
    finally show ?thesis .
  qed
qed

lemma atoi_wire_int: "atoi (wire_int x) = x"
proof (cases "x < 0")
  case True
  have "\<not> isspace (CHR ''-'')" by (simp add: isspace_def)
  then show ?thesis using True by (simp add: wire_int_def atoi_def atoi_digits_dec)
next
  case False
  obtain c cs where d: "dec_digits (nat x) = c # cs"
    using dec_digits_nonempty [of "nat x"] by (cases "dec_digits (nat x)") auto
  then have "isdigit c" using dec_digits_isdigit [of "nat x"] by simp
  then have p: "\<not> isspace c" "c \<noteq> CHR ''-''" "c \<noteq> CHR ''+''"
    using isdigit_plain by blast+
  have "atoi (c # cs) = atoi_digits 0 (c # cs)"
    using p unfolding atoi_def by (simp del: atoi_digits.simps)
  then show ?thesis using False d atoi_digits_dec [of "nat x"] by (simp add: wire_int_def)
qed

lemma wire_int_token: "wire_int x \<noteq> [] \<and> comma \<notin> set (wire_int x) \<and> NUL \<notin> set (wire_int x)"
  using dec_digits_isdigit isdigit_plain dec_digits_nonempty
  by (auto simp: wire_int_def comma_def NUL_def)

lemma parse_wire_join:
  assumes "\<forall>t \<in> set ts. t \<noteq> [] \<and> comma \<notin> set t \<and> NUL \<notin> set t"
  shows "parse_params (wire_join ts) = map atoi ts"
proof -
  have "NUL \<noteq> comma" by (simp add: NUL_def comma_def)
  then have "NUL \<notin> set (wire_join ts)" using assms wire_join_set [of ts] by auto
  then have "c_str (wire_join ts) = wire_join ts" by (rule c_str_id)
  then show ?thesis using assms token_loop_join [of ts "[]"] by (simp add: parse_params_def)
qed

subsection \<open>The range of \<open>int\<close>\<close>

text \<open>
  A token of at most nine characters converts to a number that fits a C \<open>int\<close>, so on the
  at most seven bytes that \<open>getSatelliteData\<close> reads, \<open>atoi\<close> never leaves the range
  where C defines it, and the mathematical integers of the model are the values of the
  program.
\<close>

lemma digit_value_range: "isdigit c \<Longrightarrow> 0 \<le> digit_value c \<and> digit_value c \<le> 9"
  by (auto simp: isdigit_def digit_value_def)

lemma atoi_digits_bounds:
  "0 \<le> acc \<Longrightarrow> 0 \<le> atoi_digits acc cs \<and> atoi_digits acc cs < (acc + 1) * 10 ^ length cs"
proof (induction cs arbitrary: acc)
  case Nil
  then show ?case by simp
next
  case (Cons c cs)
  show ?case
  proof (cases "isdigit c")
    case True
    let ?a = "acc * 10 + digit_value c"
    have d: "0 \<le> digit_value c" "digit_value c \<le> 9"
      using True digit_value_range by blast+
    then have a0: "0 \<le> ?a" using Cons.prems by simp
    from Cons.IH [OF a0] have lo: "0 \<le> atoi_digits ?a cs"
      and hi: "atoi_digits ?a cs < (?a + 1) * 10 ^ length cs" by blast+
    have "?a + 1 \<le> (acc + 1) * 10" using d by simp
    then have "(?a + 1) * 10 ^ length cs \<le> ((acc + 1) * 10) * 10 ^ length cs"
      by (rule mult_right_mono) simp
    then have le: "(?a + 1) * 10 ^ length cs \<le> (acc + 1) * 10 ^ length (c # cs)"
      by (simp add: mult.assoc)
    from hi le have "atoi_digits ?a cs < (acc + 1) * 10 ^ length (c # cs)"
      by (rule less_le_trans)
    moreover have "atoi_digits acc (c # cs) = atoi_digits ?a cs" using True by simp
    ultimately show ?thesis using lo by simp
  next
    case False
    define P :: int where "P = 10 ^ length (c # cs)"
    have "1 \<le> P" unfolding P_def by (rule one_le_power) simp
    moreover have "0 \<le> acc + 1" using Cons.prems by simp
    ultimately have "(acc + 1) * 1 \<le> (acc + 1) * P" by (rule mult_left_mono)
    then have "acc < (acc + 1) * P" by simp
    moreover have "atoi_digits acc (c # cs) = acc" using False by simp
    ultimately show ?thesis using Cons.prems unfolding P_def by (simp only:)
  qed
qed

lemma atoi_digits_small:
  assumes "length cs \<le> 9"
  shows "0 \<le> atoi_digits 0 cs \<and> atoi_digits 0 cs < 1000000000"
proof -
  have hi: "atoi_digits 0 cs < 10 ^ length cs" and lo: "0 \<le> atoi_digits 0 cs"
    using atoi_digits_bounds [of 0 cs] by simp_all
  have "(10::int) ^ length cs \<le> 10 ^ 9"
    using assms by (intro power_increasing) simp_all
  then have "(10::int) ^ length cs \<le> 1000000000" by simp
  with hi lo show ?thesis by linarith
qed

lemma atoi_fits_int:
  assumes "length s \<le> 9"
  shows "INT_MIN \<le> atoi s \<and> atoi s \<le> INT_MAX"
proof (cases "dropWhile isspace s")
  case Nil
  then have "atoi s = 0" unfolding atoi_def by (simp only: list.case)
  then show ?thesis by (simp add: INT_MIN_def INT_MAX_def)
next
  case (Cons c cs)
  have "length (dropWhile isspace s) \<le> length s" by (rule length_dropWhile_le)
  then have len: "length (c # cs) \<le> 9" using assms by (simp only: Cons)
  then have "length cs \<le> 9" by simp
  then have a: "0 \<le> atoi_digits 0 cs \<and> atoi_digits 0 cs < 1000000000"
    by (rule atoi_digits_small)
  have b: "0 \<le> atoi_digits 0 (c # cs) \<and> atoi_digits 0 (c # cs) < 1000000000"
    using len by (rule atoi_digits_small)
  have "atoi s = (if c = CHR ''-'' then - atoi_digits 0 cs
                  else if c = CHR ''+'' then atoi_digits 0 cs else atoi_digits 0 (c # cs))"
    unfolding atoi_def by (simp only: Cons list.case)
  then show ?thesis using a b unfolding INT_MIN_def INT_MAX_def
    by (simp only: split: if_splits) linarith+
qed

lemma strtok_token_length: "strtok s = Some (t, r) \<Longrightarrow> length t \<le> length s"
proof -
  assume a: "strtok s = Some (t, r)"
  then obtain c cs where s1: "dropWhile (\<lambda>c. c = comma) s = c # cs"
    and t: "t = takeWhile (\<lambda>c. c \<noteq> comma) (c # cs)"
    unfolding strtok_def by (cases "dropWhile (\<lambda>c. c = comma) s") simp_all
  have "length (c # cs) \<le> length s"
    using length_dropWhile_le [of "\<lambda>c. c = comma" s] by (simp only: s1)
  moreover have "length t \<le> length (c # cs)"
    unfolding t by (rule length_takeWhile_le)
  ultimately show ?thesis by simp
qed

lemma token_loop_fits_int:
  "length s \<le> 9 \<Longrightarrow> \<forall>x \<in> set sp. INT_MIN \<le> x \<and> x \<le> INT_MAX \<Longrightarrow>
   \<forall>x \<in> set (token_loop s sp). INT_MIN \<le> x \<and> x \<le> INT_MAX"
proof (induction s sp rule: token_loop.induct)
  case (1 s sp)
  show ?case
  proof (cases "strtok s")
    case None
    then show ?thesis using 1(3) by (simp add: token_loop.simps [of s])
  next
    case (Some a)
    then obtain t r where tr: "strtok s = Some (t, r)" by (cases a) auto
    have "length t \<le> 9" using strtok_token_length [OF tr] 1(2) by simp
    then have "INT_MIN \<le> atoi t \<and> atoi t \<le> INT_MAX" by (rule atoi_fits_int)
    moreover have "length r \<le> 9" using strtok_shorter [OF tr] 1(2) by simp
    ultimately have "\<forall>x \<in> set (token_loop r (sp @ [atoi t])). INT_MIN \<le> x \<and> x \<le> INT_MAX"
      using 1(3) by (intro 1(1) [OF tr refl]) simp_all
    with tr show ?thesis by (simp add: token_loop.simps [of s])
  qed
qed

lemma parse_params_fits_int:
  "length bytes \<le> 9 \<Longrightarrow> \<forall>x \<in> set (parse_params bytes). INT_MIN \<le> x \<and> x \<le> INT_MAX"
proof -
  assume "length bytes \<le> 9"
  moreover have "length (c_str bytes) \<le> length bytes"
    unfolding c_str_def by (rule length_takeWhile_le)
  ultimately have "length (c_str bytes) \<le> 9" by simp
  then have "\<forall>x \<in> set (token_loop (c_str bytes) []). INT_MIN \<le> x \<and> x \<le> INT_MAX"
    by (rule token_loop_fits_int) simp
  then show ?thesis by (simp only: parse_params_def)
qed

lemma received_frame_fits_int:
  "\<forall>x \<in> set (parse_params (take 7 q)). INT_MIN \<le> x \<and> x \<le> INT_MAX"
  by (rule parse_params_fits_int) simp

subsection \<open>Texts of decimal integers\<close>

text \<open>
  The parsing loop alone, on a whole text: the decimal forms of integers within the range of
  \<open>int\<close>, separated by commas, parse to exactly those integers, in their order.
\<close>

lemma parse_wire_message:
  assumes "\<forall>x \<in> set xs. INT_MIN \<le> x \<and> x \<le> INT_MAX"
  shows "parse_params (wire_message xs) = xs"
proof -
  have "\<forall>t \<in> set (map wire_int xs). t \<noteq> [] \<and> comma \<notin> set t \<and> NUL \<notin> set t"
    using wire_int_token by auto
  then have "parse_params (wire_join (map wire_int xs)) = map atoi (map wire_int xs)"
    by (rule parse_wire_join)
  also have "\<dots> = xs" by (simp add: atoi_wire_int comp_def)
  finally show ?thesis by (simp only: wire_message_def)
qed

section \<open>One iteration of the polling loop\<close>

text \<open>
  The five ways an iteration of the loop can go, read off the script: the wait fails, the wait
  times out, the wait reports events without \<open>POLLIN\<close>, the read fails, the read delivers.
\<close>

lemma loop_poll_failed:
  "polls w = PollFailed e # ps \<Longrightarrow>
   getSatelliteData_loop w dp sp = Some (sp, w\<lparr>polls := ps, trace := trace w @ [SysPoll 10]\<rparr>)"
  by (simp add: getSatelliteData_loop.simps sys_poll_def)

lemma loop_timeout:
  "polls w = PollTimedOut # ps \<Longrightarrow>
   getSatelliteData_loop w dp sp = Some (dp, w\<lparr>polls := ps, trace := trace w @ [SysPoll 10]\<rparr>)"
  by (simp add: getSatelliteData_loop.simps sys_poll_def)

lemma loop_no_pollin:
  "polls w = PollEvents False # ps \<Longrightarrow>
   getSatelliteData_loop w dp sp =
   getSatelliteData_loop (w\<lparr>polls := ps, trace := trace w @ [SysPoll 10]\<rparr>) dp sp"
  by (subst getSatelliteData_loop.simps) (simp add: sys_poll_def)

lemma loop_recv_failed:
  "polls w = PollEvents True # ps \<Longrightarrow> recvs w = RecvFailed e # rs \<Longrightarrow>
   getSatelliteData_loop w dp sp =
   (if e = EWOULDBLOCK
    then getSatelliteData_loop
           (w\<lparr>polls := ps, recvs := rs, trace := trace w @ [SysPoll 10, SysRecv 7]\<rparr>) dp sp
    else Some (sp, w\<lparr>polls := ps, recvs := rs, trace := trace w @ [SysPoll 10, SysRecv 7]\<rparr>))"
  by (subst getSatelliteData_loop.simps)
     (simp add: sys_poll_def sys_recv_def sizeof_char_ptr_def)

lemma loop_recv_queued:
  "polls w = PollEvents True # ps \<Longrightarrow> recvs w = RecvQueued q # rs \<Longrightarrow>
   getSatelliteData_loop w dp sp =
   Some (if q = [] then sp else token_loop (c_str (take 7 q)) sp,
         w\<lparr>polls := ps,
           recvs := (if length q \<le> 7 then rs else RecvQueued (drop 7 q) # rs),
           trace := trace w @ [SysPoll 10, SysRecv 7]\<rparr>)"
  by (subst getSatelliteData_loop.simps)
     (auto simp add: sys_poll_def sys_recv_def sizeof_char_ptr_def min_def split: if_splits)


lemma loop_no_recv_script:
  "polls w = PollEvents True # ps \<Longrightarrow> recvs w = [] \<Longrightarrow> getSatelliteData_loop w dp sp = None"
  by (subst getSatelliteData_loop.simps) (simp add: sys_poll_def sys_recv_def)


lemma loop_last_wait_timed_out:
  "getSatelliteData_loop w dp sp = Some (r, w') \<Longrightarrow>
   polls w = pre @ PollTimedOut # polls w' \<Longrightarrow> r = dp"
proof (induction "polls w" arbitrary: w pre)
  case Nil
  then show ?case by simp
next
  case (Cons p ps)
  note IH = Cons.hyps(1) and ret = Cons.prems(1) and shape = Cons.prems(2)
  have pw: "polls w = p # ps" using Cons.hyps(2) by simp
  have stop: "polls w' = ps \<Longrightarrow> p = PollTimedOut"
  proof -
    assume "polls w' = ps"
    then have "length (p # ps) = length (pre @ PollTimedOut # ps)" using pw shape by simp
    then have "pre = []" by simp
    then show ?thesis using pw shape by simp
  qed
  have more: "p \<noteq> PollTimedOut \<Longrightarrow> \<exists>pre'. ps = pre' @ PollTimedOut # polls w'"
    using pw shape by (cases pre) auto
  let ?w1 = "w\<lparr>polls := ps, trace := trace w @ [SysPoll 10]\<rparr>"
  show ?case
  proof (cases p)
    case (PollFailed e)
    then show ?thesis using ret pw stop by (auto simp add: loop_poll_failed)
  next
    case PollTimedOut
    then show ?thesis using ret pw by (simp add: loop_timeout)
  next
    case (PollEvents pollin)
    then obtain pre' where pre': "ps = pre' @ PollTimedOut # polls w'" using more by auto
    show ?thesis
    proof (cases pollin)
      case False
      have "ps = polls ?w1" by simp
      moreover have "getSatelliteData_loop ?w1 dp sp = Some (r, w')"
        using False ret pw PollEvents by (simp add: loop_no_pollin)
      moreover have "polls ?w1 = pre' @ PollTimedOut # polls w'" using pre' by simp
      ultimately show ?thesis by (rule IH)
    next
      case True
      show ?thesis
      proof (cases "recvs w")
        case Nil
        then show ?thesis using ret pw PollEvents True by (simp add: loop_no_recv_script)
      next
        case (Cons x rs)
        note rw = this
        show ?thesis
        proof (cases x)
          case (RecvQueued q)
          then show ?thesis using ret pw PollEvents True rw stop
            by (auto simp add: loop_recv_queued)
        next
          case (RecvFailed e)
          let ?w2 = "w\<lparr>polls := ps, recvs := rs, trace := trace w @ [SysPoll 10, SysRecv 7]\<rparr>"
          show ?thesis
          proof (cases "e = EWOULDBLOCK")
            case False
            then show ?thesis using ret pw PollEvents True rw RecvFailed stop
              by (auto simp add: loop_recv_failed)
          next
            case wb: True
            have "ps = polls ?w2" by simp
            moreover have "getSatelliteData_loop ?w2 dp sp = Some (r, w')"
              using wb ret pw PollEvents True rw RecvFailed by (simp add: loop_recv_failed)
            moreover have "polls ?w2 = pre' @ PollTimedOut # polls w'" using pre' by simp
            ultimately show ?thesis by (rule IH)
          qed
        qed
      qed
    qed
  qed
qed

section \<open>Readiness outcomes\<close>

text \<open>
  Claim C8. When the readiness wait times out, \<open>getSatelliteData\<close> returns the vector the
  caller passed as \<open>default_params\<close> (the previous state), unchanged, after that wait and
  without reading from the socket; and whenever the wait that ends a call is one that timed
  out, the result of the call is the previous state.
\<close>

theorem timeout_keeps_previous:
  "(\<forall>ps. polls w = PollTimedOut # ps \<longrightarrow>
      getSatelliteData w previous =
      Some (previous, w\<lparr>polls := ps, trace := trace w @ [SysPoll 10]\<rparr>)) \<and>
   (\<forall>r w' pre. getSatelliteData w previous = Some (r, w') \<and>
      polls w = pre @ PollTimedOut # polls w' \<longrightarrow> r = previous)"
  unfolding getSatelliteData_def
  using loop_last_wait_timed_out [of w previous "[]"] by (auto simp add: loop_timeout)

theorem timeout_keeps_previous_witness:
  "getSatelliteData \<lparr>polls = [PollTimedOut], recvs = [RecvQueued ''9,9''], trace = []\<rparr> [5, 200] =
     Some ([5, 200], \<lparr>polls = [], recvs = [RecvQueued ''9,9''], trace = [SysPoll 10]\<rparr>) \<and>
   fst (the (getSatelliteData
     \<lparr>polls = [PollEvents True, PollTimedOut], recvs = [RecvFailed EWOULDBLOCK], trace = []\<rparr>
     [5, 200])) = [5, 200]"
proof -
  let ?w = "\<lparr>polls = [PollTimedOut], recvs = [RecvQueued ''9,9''], trace = []\<rparr>"
  let ?v = "\<lparr>polls = [PollEvents True, PollTimedOut], recvs = [RecvFailed EWOULDBLOCK],
             trace = []\<rparr>"
  from timeout_keeps_previous [of ?w "[5, 200]"]
  have a: "getSatelliteData ?w [5, 200] =
      Some ([5, 200], \<lparr>polls = [], recvs = [RecvQueued ''9,9''], trace = [SysPoll 10]\<rparr>)"
    by simp
  obtain r w' where ev: "getSatelliteData ?v [5, 200] = Some (r, w')" and p: "polls w' = []"
    by (simp add: getSatelliteData_def loop_recv_failed loop_timeout)
  have "polls ?v = [PollEvents True] @ PollTimedOut # polls w'" using p by simp
  with ev timeout_keeps_previous [of ?v "[5, 200]"] have "r = [5, 200]" by blast
  with ev a show ?thesis by simp
qed

text \<open>
  In the frame loop the previous state is the vector \<open>main\<close> holds: after a timeout the frame
  keeps it and advances the angle by its first field.
\<close>

lemma main_frame_timeout:
  assumes "polls w = PollTimedOut # ps" and "2 \<le> length (sat_params st)"
    and "INT_MIN \<le> angle st + sat_params st ! 0" and "angle st + sat_params st ! 0 \<le> INT_MAX"
  shows "main_frame w st =
         Some (Inr (st\<lparr>angle := angle st + sat_params st ! 0\<rparr>,
                    w\<lparr>polls := ps, trace := trace w @ [SysPoll 10]\<rparr>))"
proof -
  have "refill (sat_params st) = sat_params st" using assms(2) by (auto simp: refill_def)
  then show ?thesis using assms
    by (simp add: main_frame_def getSatelliteData_def loop_timeout)
qed

text \<open>
  Claim C4. The claim asks that a failed wait and a failed read (other than would-block)
  return the previous state. Evaluated on the previous state \<open>[2, 10]\<close>, the code returns the
  empty vector in both cases: only the timeout branch assigns \<open>default_params\<close> to
  \<open>sat_params\<close> before its \<open>break\<close>.
\<close>

theorem error_paths_return_empty:
  "getSatelliteData \<lparr>polls = [PollFailed EINTR], recvs = [], trace = []\<rparr> [2, 10] =
     Some ([], \<lparr>polls = [], recvs = [], trace = [SysPoll 10]\<rparr>) \<and>
   getSatelliteData \<lparr>polls = [PollEvents True], recvs = [RecvFailed ECONNRESET], trace = []\<rparr>
       [2, 10] =
     Some ([], \<lparr>polls = [], recvs = [], trace = [SysPoll 10, SysRecv 7]\<rparr>)"
  by (simp add: getSatelliteData_def loop_poll_failed loop_recv_failed)

section \<open>Short frames\<close>

text \<open>
  Claim C1. The claim asks that a frame of fewer than two integers never replaces a valid
  state. Evaluated on the state \<open>[2, 10]\<close> and the one-field frame \<open>5\<close>, the code returns
  \<open>[5]\<close> as the new state, and the frame loop then reads index 1 of a vector of length 1.
\<close>

theorem short_frame_overwrites_state:
  "getSatelliteData \<lparr>polls = [PollEvents True], recvs = [RecvQueued ''5''], trace = []\<rparr> [2, 10] =
     Some ([5], \<lparr>polls = [], recvs = [], trace = [SysPoll 10, SysRecv 7]\<rparr>) \<and>
   main_frame \<lparr>polls = [PollEvents True], recvs = [RecvQueued ''5''], trace = []\<rparr>
       \<lparr>angle = 0, sat_params = [2, 10]\<rparr> =
     Some (Inl (OutOfBounds 1))"
  by (simp add: main_frame_def refill_def getSatelliteData_def loop_recv_queued
      token_loop.simps c_str_def strtok_def NUL_def comma_def atoi_def isspace_def isdigit_def
      digit_value_def)

text \<open>
  Two frames of the loop, end to end: the producer sends \<open>5,200\<close>, then nothing. The state
  becomes \<open>[5, 200]\<close> and stays so, and the angle advances by 5 in each frame.
\<close>

lemma two_frames_end_to_end:
  "main_frames 2
     \<lparr>polls = [PollEvents True, PollTimedOut], recvs = [RecvQueued ''5,200''], trace = []\<rparr>
     \<lparr>angle = 0, sat_params = []\<rparr> =
   Some (Inr (\<lparr>angle = 10, sat_params = [5, 200]\<rparr>,
              \<lparr>polls = [], recvs = [], trace = [SysPoll 10, SysRecv 7, SysPoll 10]\<rparr>))"
proof -
  have p: "token_loop (c_str ''5,200'') [] = [5, 200]"
    by (simp add: token_loop.simps c_str_def strtok_def NUL_def comma_def atoi_def isspace_def
        isdigit_def digit_value_def)
  show ?thesis
    by (simp add: numeral_2_eq_2 main_frame_def refill_def getSatelliteData_def
        loop_recv_queued loop_timeout p INT_MIN_def INT_MAX_def)
qed

section \<open>Reading from the socket\<close>

text \<open>
  Claim C10. When data is ready, the single \<open>recv\<close> of the call asks for
  \<open>sizeof(buf) - 1 = 7\<close> bytes: the call parses the first 7 bytes queued and returns; a
  longer message is cut there, and what is left of it stays queued for later calls.
\<close>

theorem read_takes_seven_bytes:
  assumes "polls w = PollEvents True # ps" and "recvs w = RecvQueued q # rs" and "q \<noteq> []"
  shows "getSatelliteData w previous =
         Some (parse_params (take 7 q),
               w\<lparr>polls := ps,
                 recvs := (if length q \<le> 7 then rs else RecvQueued (drop 7 q) # rs),
                 trace := trace w @ [SysPoll 10, SysRecv 7]\<rparr>)"
  using assms by (simp add: getSatelliteData_def parse_params_def loop_recv_queued)

theorem read_takes_seven_bytes_witness:
  "getSatelliteData
     \<lparr>polls = [PollEvents True], recvs = [RecvQueued ''5,200,12345''], trace = []\<rparr> [2, 10] =
   Some (parse_params ''5,200,1'',
         \<lparr>polls = [], recvs = [RecvQueued ''2345''], trace = [SysPoll 10, SysRecv 7]\<rparr>)"
  using read_takes_seven_bytes
    [of "\<lparr>polls = [PollEvents True], recvs = [RecvQueued ''5,200,12345''], trace = []\<rparr>"
        "[]" "''5,200,12345''" "[]" "[2, 10]"]
  by simp

section \<open>The peer closes the connection\<close>

text \<open>
  Claim C3, as stated, is refuted: after a call whose read returned zero bytes, the next
  call on the same connection reads again.
\<close>

theorem peer_closed_read_again_counterexample:
  "getSatelliteData
     \<lparr>polls = [PollEvents True, PollEvents True], recvs = [RecvQueued [], RecvQueued []],
      trace = []\<rparr> [2, 10] =
     Some ([], \<lparr>polls = [PollEvents True], recvs = [RecvQueued []],
                trace = [SysPoll 10, SysRecv 7]\<rparr>) \<and>
   getSatelliteData
     \<lparr>polls = [PollEvents True], recvs = [RecvQueued []], trace = [SysPoll 10, SysRecv 7]\<rparr>
     [2, 10] =
     Some ([], \<lparr>polls = [], recvs = [],
                trace = [SysPoll 10, SysRecv 7, SysPoll 10, SysRecv 7]\<rparr>)"
  by (simp add: getSatelliteData_def loop_recv_queued)

text \<open>
  Claim C3, amended. A read of zero bytes ends the call after its one wait and one read,
  with the result a failed read gives: no condition of its own is reported and nothing is
  remembered about the connection. The next call waits and, the descriptor being readable,
  reads again.
\<close>

theorem peer_closed_ends_call_only:
  assumes "polls w = PollEvents True # PollEvents True # ps"
    and "recvs w = RecvQueued [] # RecvQueued [] # rs"
  shows "\<exists>r1 w1 r2 w2.
           getSatelliteData w previous = Some (r1, w1) \<and>
           trace w1 = trace w @ [SysPoll 10, SysRecv 7] \<and>
           getSatelliteData w1 previous' = Some (r2, w2) \<and>
           trace w2 = trace w1 @ [SysPoll 10, SysRecv 7] \<and>
           map_option fst (getSatelliteData (w\<lparr>recvs := RecvFailed ECONNRESET # rs\<rparr>) previous)
             = Some r1"
  using assms by (simp add: getSatelliteData_def loop_recv_queued loop_recv_failed)

theorem peer_closed_ends_call_only_witness:
  "\<exists>r1 w1 r2 w2.
     getSatelliteData \<lparr>polls = [PollEvents True, PollEvents True],
        recvs = [RecvQueued [], RecvQueued []], trace = []\<rparr> [2, 10] = Some (r1, w1) \<and>
     trace w1 = [SysPoll 10, SysRecv 7] \<and>
     getSatelliteData w1 [2, 10] = Some (r2, w2) \<and>
     trace w2 = trace w1 @ [SysPoll 10, SysRecv 7] \<and>
     map_option fst (getSatelliteData \<lparr>polls = [PollEvents True, PollEvents True],
        recvs = [RecvFailed ECONNRESET], trace = []\<rparr> [2, 10]) = Some r1"
  using peer_closed_ends_call_only
    [of "\<lparr>polls = [PollEvents True, PollEvents True],
        recvs = [RecvQueued [], RecvQueued []], trace = []\<rparr>" "[]" "[]" "[2, 10]" "[2, 10]"]
  by simp

section \<open>Connecting\<close>

text \<open>
  Claim C6. When the first four \<open>connect\<close> calls fail with \<open>ENOENT\<close> or \<open>ECONNREFUSED\<close>,
  \<open>createSocket\<close> returns 0 after four attempts and exactly three retries (three delays
  of 1000 ms), whatever a fifth attempt would have given. The value is not the 1 of the
  fatal paths, and the descriptor is not closed.
\<close>

theorem connect_exhausted_after_three_retries:
  assumes "socket_ret \<noteq> - 1" and "fcntl_ret \<noteq> - 1"
    and "\<forall>e \<in> {e1, e2, e3, e4}. e = ENOENT \<or> e = ECONNREFUSED"
  shows "createSocket socket_ret fcntl_ret
           (ConnectFailed e1 # ConnectFailed e2 # ConnectFailed e3 # ConnectFailed e4 # rest) =
         Some (0, [CallConnect, CallDelay 1000, CallConnect, CallDelay 1000,
                   CallConnect, CallDelay 1000, CallConnect])"
  using assms by (simp add: createSocket_def)

theorem connect_exhausted_after_three_retries_witness:
  "createSocket 3 0
     [ConnectFailed ENOENT, ConnectFailed ENOENT, ConnectFailed ECONNREFUSED,
      ConnectFailed ECONNREFUSED, ConnectOk] =
   Some (0, [CallConnect, CallDelay 1000, CallConnect, CallDelay 1000,
             CallConnect, CallDelay 1000, CallConnect])"
  using connect_exhausted_after_three_retries
    [of 3 0 ENOENT ENOENT ECONNREFUSED ECONNREFUSED "[ConnectOk]"]
  by simp

section \<open>Waits and reads of one call\<close>




section \<open>Frames without a token\<close>

text \<open>
  Claim C7. The claim asks that a message that parses to no integer leaves the previous
  state in place. Evaluated on the state \<open>[2, 10]\<close> and the message \<open>,\<close>, which has no token,
  the code returns the empty vector as the new state, and the frame loop then reads index 1
  of an empty vector; the refill of lines 271 to 274 is not reached.
\<close>

theorem empty_frame_overwrites_state:
  "parse_params '','' = [] \<and>
   getSatelliteData \<lparr>polls = [PollEvents True], recvs = [RecvQueued '',''], trace = []\<rparr> [2, 10] =
     Some ([], \<lparr>polls = [], recvs = [], trace = [SysPoll 10, SysRecv 7]\<rparr>) \<and>
   main_frame \<lparr>polls = [PollEvents True], recvs = [RecvQueued '',''], trace = []\<rparr>
       \<lparr>angle = 0, sat_params = [2, 10]\<rparr> =
     Some (Inl (OutOfBounds 1))"
  by (simp add: main_frame_def refill_def getSatelliteData_def loop_recv_queued parse_params_def
      token_loop.simps c_str_def strtok_def NUL_def comma_def)

text \<open>
  The same holds for every message whose first 7 bytes parse to nothing.
\<close>

lemma empty_parse_faults_frame:
  assumes "polls w = PollEvents True # ps" and "recvs w = RecvQueued q # rs" and "q \<noteq> []"
    and "parse_params (take 7 q) = []"
  shows "main_frame w st = Some (Inl (OutOfBounds 1))"
proof -
  have "token_loop (c_str (take 7 q)) [] = []"
    using assms(4) by (simp only: parse_params_def)
  then show ?thesis using assms(1-3)
    by (simp add: main_frame_def getSatelliteData_def loop_recv_queued)
qed

section \<open>Frames of decimal integers\<close>

text \<open>
  A message of decimal integers that fits the 7 bytes of the read comes back as the
  integers sent.
\<close>

lemma wire_message_nonempty: "xs \<noteq> [] \<Longrightarrow> wire_message xs \<noteq> []"
proof (cases xs)
  case Nil
  assume "xs \<noteq> []"
  with Nil show ?thesis by simp
next
  case (Cons x ys)
  have "wire_int x \<noteq> []" using wire_int_token by blast
  then show ?thesis unfolding wire_message_def Cons by (cases ys) simp_all
qed

lemma short_message_round_trip:
  assumes "polls w = PollEvents True # ps" and "recvs w = RecvQueued (wire_message xs) # rs"
    and "xs \<noteq> []" and "length (wire_message xs) \<le> 7"
  shows "getSatelliteData w previous =
         Some (xs, w\<lparr>polls := ps, recvs := rs, trace := trace w @ [SysPoll 10, SysRecv 7]\<rparr>)"
proof -
  have "\<forall>t \<in> set (map wire_int xs). t \<noteq> [] \<and> comma \<notin> set t \<and> NUL \<notin> set t"
    using wire_int_token by auto
  then have "parse_params (wire_join (map wire_int xs)) = map atoi (map wire_int xs)"
    by (rule parse_wire_join)
  then have "token_loop (c_str (wire_message xs)) [] = xs"
    by (simp add: atoi_wire_int comp_def wire_message_def parse_params_def)
  then show ?thesis using assms wire_message_nonempty [of xs]
    by (simp add: getSatelliteData_def loop_recv_queued)
qed

text \<open>
  Claim C9. The claim asks that every received message of valid decimal integers yields those
  integers. Evaluated on the message \<open>100,2000\<close>, which is the wire form of \<open>[100, 2000]\<close>,
  the code returns \<open>[100, 200]\<close>: the read of line 179 asks for \<open>sizeof(buf) - 1\<close> bytes
  where \<open>buf\<close> is a pointer, so only 7 of the 8 bytes are read; the next call returns \<open>[0]\<close>
  from the byte left over.
\<close>

theorem valid_message_cut_at_seven_bytes:
  "wire_message [100, 2000] = ''100,2000'' \<and>
   getSatelliteData
     \<lparr>polls = [PollEvents True, PollEvents True], recvs = [RecvQueued ''100,2000''],
      trace = []\<rparr> [2, 10] =
     Some ([100, 200],
           \<lparr>polls = [PollEvents True], recvs = [RecvQueued ''0''],
              trace = [SysPoll 10, SysRecv 7]\<rparr>) \<and>
   getSatelliteData
     \<lparr>polls = [PollEvents True], recvs = [RecvQueued ''0''], trace = [SysPoll 10, SysRecv 7]\<rparr>
     [100, 200] =
     Some ([0], \<lparr>polls = [], recvs = [],
                 trace = [SysPoll 10, SysRecv 7, SysPoll 10, SysRecv 7]\<rparr>)"
proof -
  have "wire_message [100, 2000] = ''100,2000''" by code_simp
  then show ?thesis
    by (simp add: getSatelliteData_def loop_recv_queued token_loop.simps
      c_str_def strtok_def NUL_def comma_def atoi_def isspace_def isdigit_def digit_value_def)
qed

section \<open>Tokens that are not numbers\<close>

lemma token_in_range:
  assumes "t \<in> set (comma_tokens (c_str (take 7 q)))"
  shows "INT_MIN \<le> atoi t \<and> atoi t \<le> INT_MAX"
proof -
  have "atoi t \<in> set (parse_params (take 7 q))"
    using assms by (simp add: parse_params_tokens)
  then show ?thesis using received_frame_fits_int [of q] by blast
qed

text \<open>
  Claim C2, as stated, is refuted: the token \<open>abc\<close> of \<open>3,abc,120\<close> is not skipped. The
  parsing loop gives \<open>[3, 0, 120]\<close> on that text, and the call, which reads 7 bytes of it,
  returns \<open>[3, 0, 1]\<close>; neither is \<open>[3, 120]\<close>.
\<close>

theorem parse_skips_invalid_counterexample:
  "parse_params ''3,abc,120'' = [3, 0, 120] \<and>
   getSatelliteData
     \<lparr>polls = [PollEvents True], recvs = [RecvQueued ''3,abc,120''], trace = []\<rparr> [2, 10] =
   Some ([3, 0, 1],
         \<lparr>polls = [], recvs = [RecvQueued ''20''], trace = [SysPoll 10, SysRecv 7]\<rparr>)"
  by (simp add: getSatelliteData_def loop_recv_queued parse_params_def token_loop.simps
      c_str_def strtok_def NUL_def comma_def atoi_def isspace_def isdigit_def digit_value_def)

text \<open>
  Claim C2, amended. For every received message, the call splits the text that the read
  delivered (up to its first NUL) on commas, passes over the empty fields, and pushes
  \<open>atoi\<close> of every token, in order. No token is skipped: each contributes one integer, within
  the range of \<open>int\<close>, and a token that does not convert contributes 0. So a read that
  delivers \<open>3,abc,1\<close> yields \<open>[3, 0, 1]\<close>.
\<close>

theorem parse_inserts_every_token:
  assumes "polls w = PollEvents True # ps" and "recvs w = RecvQueued q # rs" and "q \<noteq> []"
  shows "map_option fst (getSatelliteData w previous) =
           Some (map atoi (comma_tokens (c_str (take 7 q)))) \<and>
         (\<forall>t \<in> set (comma_tokens (c_str (take 7 q))).
            INT_MIN \<le> atoi t \<and> atoi t \<le> INT_MAX \<and> (\<not> converts t \<longrightarrow> atoi t = 0))"
proof -
  have "map_option fst (getSatelliteData w previous) =
        Some (map atoi (comma_tokens (c_str (take 7 q))))"
    using assms by (simp add: getSatelliteData_def loop_recv_queued token_loop_tokens)
  then show ?thesis using token_in_range [of _ q] not_converts_atoi by blast
qed

theorem parse_inserts_every_token_witness:
  "map_option fst (getSatelliteData
     \<lparr>polls = [PollEvents True], recvs = [RecvQueued ''3,abc,1''], trace = []\<rparr> [2, 10]) =
     Some [3, 0, 1] \<and>
   comma_tokens ''3,abc,1'' = [''3'', ''abc'', ''1''] \<and> \<not> converts ''abc'' \<and> atoi ''abc'' = 0"
proof -
  let ?w = "\<lparr>polls = [PollEvents True], recvs = [RecvQueued ''3,abc,1''], trace = []\<rparr>"
  have tk: "comma_tokens (c_str (take 7 ''3,abc,1'')) = [''3'', ''abc'', ''1'']"
    by (simp add: comma_tokens_def c_str_def NUL_def comma_def)
  have tk2: "comma_tokens ''3,abc,1'' = [''3'', ''abc'', ''1'']"
    by (simp add: comma_tokens_def comma_def)
  have nc: "\<not> converts ''abc''"
    by (simp add: converts_def isspace_def isdigit_def)
  have at: "map atoi [''3'', ''abc'', ''1''] = [3, 0, 1]"
    by (simp add: atoi_def isspace_def isdigit_def digit_value_def)
  from parse_inserts_every_token [of ?w "[]" "''3,abc,1''" "[]" "[2, 10]"]
  have "map_option fst (getSatelliteData ?w [2, 10]) = Some (map atoi [''3'', ''abc'', ''1''])"
    and "\<not> converts ''abc'' \<longrightarrow> atoi ''abc'' = 0"
    unfolding tk by simp_all
  then show ?thesis using tk2 nc at by simp
qed

end
